theory Spec2Isabelle
  imports Main "HOL-Library.Word" "HOL-Library.Monad_Syntax"
begin

unbundle bit_operations_syntax

section \<open>The OLED driver of \<^verbatim>\<open>src/main.c\<close>\<close>

text \<open>
  The driver talks to an SSD1306-class display through the TWI peripheral of the
  microcontroller. The model keeps the C functions one to one. A register of the
  peripheral that the code writes is an entry of a log of register writes; the status
  register that the code polls is an oracle giving the value of every read. A function
  that waits on the hardware returns \<open>None\<close> when the wait never ends. The functions
  \<^verbatim>\<open>i2c_init\<close> and \<^verbatim>\<open>main\<close> set the bus clock and call the driver; no property below
  is about them and they are not modelled.
\<close>

subsection \<open>Environment: device header, hardware, program memory\<close>

type_synonym u8 = "8 word"

text \<open>
  Everything the C file takes from outside itself is a field of \<open>env\<close>:
  \<^item> \<open>TWI_WIF_bm\<close> and \<open>TWI_MCMD_STOP_gc\<close> are constants of the device header
    \<^verbatim>\<open>avr/io.h\<close>, which is not part of the repository;
  \<^item> \<open>MSTATUS env k\<close> is the value the \<open>k\<close>-th read of \<^verbatim>\<open>TWI0.MSTATUS\<close> returns
    (reads are counted from 0 over the whole run), so that any behaviour of the
    hardware is one such function;
  \<^item> \<open>adjacent env off\<close> is the byte of program memory at offset \<open>off\<close> from the
    address of \<^verbatim>\<open>font\<close>, for offsets outside the table;
  \<^item> \<open>char_signed\<close> says whether plain \<^verbatim>\<open>char\<close> is signed, which the compiler
    decides.
\<close>

record env =
  TWI_WIF_bm :: u8
  TWI_MCMD_STOP_gc :: u8
  MSTATUS :: "nat \<Rightarrow> u8"
  adjacent :: "int \<Rightarrow> u8"
  char_signed :: bool

datatype reg_write = MADDR u8 | MDATA u8 | MCTRLB u8

text \<open>The peripheral as the driver sees it: the writes made so far, oldest first, and
  the number of reads of the status register made so far.\<close>

record twi =
  writes :: "reg_write list"
  polls :: nat

subsection \<open>Constants of the C file\<close>

definition OLED_ADDR :: u8 where "OLED_ADDR = 0x3C"

definition OLED_CMD_DISPLAY_OFF :: u8 where "OLED_CMD_DISPLAY_OFF = 0xAE"
definition OLED_CMD_DISPLAY_ON :: u8 where "OLED_CMD_DISPLAY_ON = 0xAF"
definition OLED_CMD_SET_DISPLAY_CLOCK_DIV :: u8 where "OLED_CMD_SET_DISPLAY_CLOCK_DIV = 0xD5"
definition OLED_CMD_SET_MULTIPLEX :: u8 where "OLED_CMD_SET_MULTIPLEX = 0xA8"
definition OLED_CMD_SET_DISPLAY_OFFSET :: u8 where "OLED_CMD_SET_DISPLAY_OFFSET = 0xD3"
definition OLED_CMD_SET_START_LINE :: u8 where "OLED_CMD_SET_START_LINE = 0x40"
definition OLED_CMD_CHARGE_PUMP :: u8 where "OLED_CMD_CHARGE_PUMP = 0x8D"
definition OLED_CMD_MEMORY_MODE :: u8 where "OLED_CMD_MEMORY_MODE = 0x20"
definition OLED_CMD_SEG_REMAP :: u8 where "OLED_CMD_SEG_REMAP = 0xA1"
definition OLED_CMD_COM_SCAN_DEC :: u8 where "OLED_CMD_COM_SCAN_DEC = 0xC8"
definition OLED_CMD_SET_CONTRAST :: u8 where "OLED_CMD_SET_CONTRAST = 0x81"
definition OLED_CMD_PRECHARGE :: u8 where "OLED_CMD_PRECHARGE = 0xD9"
definition OLED_CMD_SETVCOMDETECT :: u8 where "OLED_CMD_SETVCOMDETECT = 0xDB"
definition OLED_CMD_DISPLAY_ALL_ON_RESUME :: u8 where "OLED_CMD_DISPLAY_ALL_ON_RESUME = 0xA4"
definition OLED_CMD_NORMAL_DISPLAY :: u8 where "OLED_CMD_NORMAL_DISPLAY = 0xA6"

text \<open>The table \<^verbatim>\<open>font[][5]\<close>: twelve rows of five bytes, in the order of the
  initialiser.\<close>

definition font :: "u8 list list" where
  "font =
    [[0x00, 0x00, 0x00, 0x00, 0x00],
     [0x00, 0x00, 0x5F, 0x00, 0x00],
     [0x7C, 0x12, 0x11, 0x12, 0x7C],
     [0x00, 0x42, 0x7F, 0x40, 0x00],
     [0x42, 0x61, 0x51, 0x49, 0x46],
     [0x21, 0x41, 0x45, 0x4B, 0x31],
     [0x18, 0x14, 0x12, 0x7F, 0x10],
     [0x27, 0x45, 0x45, 0x45, 0x39],
     [0x3C, 0x4A, 0x49, 0x49, 0x30],
     [0x01, 0x71, 0x09, 0x05, 0x03],
     [0x36, 0x49, 0x49, 0x49, 0x36],
     [0x06, 0x49, 0x49, 0x29, 0x1E]]"

subsection \<open>Bus transport\<close>

definition wif :: "env \<Rightarrow> nat \<Rightarrow> bool" where
  "wif e k = (MSTATUS e k AND TWI_WIF_bm e \<noteq> 0)"

text \<open>The loop \<^verbatim>\<open>while (!(TWI0.MSTATUS & TWI_WIF_bm));\<close> started when \<open>k\<close> reads have
  been made: every iteration is one read; the result is the number of reads made when
  the loop is left, and \<open>None\<close> when it never is.\<close>

partial_function (option) wait_wif :: "env \<Rightarrow> nat \<Rightarrow> nat option" where
  "wait_wif e k = (if wif e k then Some (Suc k) else wait_wif e (Suc k))"

definition i2c_start :: "env \<Rightarrow> u8 \<Rightarrow> twi \<Rightarrow> twi option" where
  "i2c_start e address s =
     map_option (\<lambda>k. \<lparr>writes = writes s @ [MADDR (push_bit 1 address)], polls = k\<rparr>)
       (wait_wif e (polls s))"

definition i2c_write :: "env \<Rightarrow> u8 \<Rightarrow> twi \<Rightarrow> twi option" where
  "i2c_write e data s =
     map_option (\<lambda>k. \<lparr>writes = writes s @ [MDATA data], polls = k\<rparr>)
       (wait_wif e (polls s))"

definition i2c_stop :: "env \<Rightarrow> twi \<Rightarrow> twi" where
  "i2c_stop e s = s\<lparr>writes := writes s @ [MCTRLB (TWI_MCMD_STOP_gc e)]\<rparr>"

subsection \<open>Command channel, initialiser, text renderer\<close>

definition oled_command :: "env \<Rightarrow> u8 \<Rightarrow> twi \<Rightarrow> twi option" where
  "oled_command e cmd s = do {
     s1 \<leftarrow> i2c_start e OLED_ADDR s;
     s2 \<leftarrow> i2c_write e 0x00 s1;
     s3 \<leftarrow> i2c_write e cmd s2;
     Some (i2c_stop e s3)
   }"

definition oled_init :: "env \<Rightarrow> twi \<Rightarrow> twi option" where
  "oled_init e s = do {
     s \<leftarrow> oled_command e OLED_CMD_DISPLAY_OFF s;
     s \<leftarrow> oled_command e OLED_CMD_SET_DISPLAY_CLOCK_DIV s;
     s \<leftarrow> oled_command e 0x80 s;
     s \<leftarrow> oled_command e OLED_CMD_SET_MULTIPLEX s;
     s \<leftarrow> oled_command e 0x1F s;
     s \<leftarrow> oled_command e OLED_CMD_SET_DISPLAY_OFFSET s;
     s \<leftarrow> oled_command e 0x00 s;
     s \<leftarrow> oled_command e (OLED_CMD_SET_START_LINE OR 0x00) s;
     s \<leftarrow> oled_command e OLED_CMD_CHARGE_PUMP s;
     s \<leftarrow> oled_command e 0x14 s;
     s \<leftarrow> oled_command e OLED_CMD_MEMORY_MODE s;
     s \<leftarrow> oled_command e 0x00 s;
     s \<leftarrow> oled_command e (OLED_CMD_SEG_REMAP OR 0x01) s;
     s \<leftarrow> oled_command e OLED_CMD_COM_SCAN_DEC s;
     s \<leftarrow> oled_command e OLED_CMD_SET_CONTRAST s;
     s \<leftarrow> oled_command e 0x8F s;
     s \<leftarrow> oled_command e OLED_CMD_PRECHARGE s;
     s \<leftarrow> oled_command e 0xF1 s;
     s \<leftarrow> oled_command e OLED_CMD_SETVCOMDETECT s;
     s \<leftarrow> oled_command e 0x40 s;
     s \<leftarrow> oled_command e OLED_CMD_DISPLAY_ALL_ON_RESUME s;
     s \<leftarrow> oled_command e OLED_CMD_NORMAL_DISPLAY s;
     oled_command e OLED_CMD_DISPLAY_ON s
   }"

definition oled_set_cursor :: "env \<Rightarrow> u8 \<Rightarrow> u8 \<Rightarrow> twi \<Rightarrow> twi option" where
  "oled_set_cursor e col row s = do {
     s \<leftarrow> oled_command e (0xB0 + row) s;
     s \<leftarrow> oled_command e (0x00 + (col AND 0x0F)) s;
     oled_command e (0x10 + (drop_bit 4 col AND 0x0F)) s
   }"

text \<open>The value of a \<^verbatim>\<open>char\<close> after promotion to \<^verbatim>\<open>int\<close>.\<close>

definition char_value :: "env \<Rightarrow> char \<Rightarrow> int" where
  "char_value e c = (if char_signed e then sint (of_char c :: u8) else uint (of_char c :: u8))"

text \<open>
  \<^verbatim>\<open>pgm_read_byte(&font[idx][i])\<close>. The rows of the table lie one after the other in
  program memory, so the address read is the table's address plus \<open>5 * idx + i\<close>. The
  code checks no bound: the byte read is a byte of the table when the offset falls inside
  its 60 bytes, and a byte of the memory around the table otherwise.
\<close>

definition pgm_read_font :: "env \<Rightarrow> int \<Rightarrow> nat \<Rightarrow> u8" where
  "pgm_read_font e idx i =
     (let off = 5 * idx + int i
      in if 0 \<le> off \<and> off < int (length (concat font)) then concat font ! nat off
         else adjacent e off)"

text \<open>The \<^verbatim>\<open>for\<close> loop of \<^verbatim>\<open>oled_write_char\<close>, entered with counter \<open>i\<close>.\<close>

function glyph_loop :: "env \<Rightarrow> int \<Rightarrow> nat \<Rightarrow> twi \<Rightarrow> twi option" where
  "glyph_loop e idx i s =
     (if i < 5 then do {
        s' \<leftarrow> i2c_write e (pgm_read_font e idx i) s;
        glyph_loop e idx (i + 1) s'
      } else Some s)"
  by pat_completeness auto
termination
  by (relation "measure (\<lambda>(e, idx, i, s). 5 - i)") auto

definition oled_write_char :: "env \<Rightarrow> char \<Rightarrow> twi \<Rightarrow> twi option" where
  "oled_write_char e c s = do {
     s \<leftarrow> i2c_start e OLED_ADDR s;
     s \<leftarrow> i2c_write e 0x40 s;
     s \<leftarrow> glyph_loop e (char_value e c - 32) 0 s;
     s \<leftarrow> i2c_write e 0x00 s;
     Some (i2c_stop e s)
   }"

text \<open>The argument is the array \<^verbatim>\<open>str\<close> points to, up to its terminating zero
  byte (left out); the loop also stops at a zero byte inside the list.\<close>

fun oled_write_string :: "env \<Rightarrow> string \<Rightarrow> twi \<Rightarrow> twi option" where
  "oled_write_string e [] s = Some s"
| "oled_write_string e (c # str) s =
     (if of_char c = (0 :: nat) then Some s
      else do {
        s' \<leftarrow> oled_write_char e c s;
        oled_write_string e str s'
      })"

subsection \<open>Vocabulary of the properties\<close>

text \<open>The hardware answers every wait: from any read on, some later read of the status
  register has the write-complete flag set.\<close>

definition responsive :: "env \<Rightarrow> bool" where
  "responsive e = (\<forall>k. \<exists>j. k \<le> j \<and> wif e j)"

text \<open>The register writes of one command transaction and of one data transaction, as the
  bus sees them: the address byte \<open>0x78\<close> is the 7-bit address \<open>0x3C\<close> followed by the
  write bit, then the control byte, the payload and the stop command.\<close>

definition command_txn :: "env \<Rightarrow> u8 \<Rightarrow> reg_write list" where
  "command_txn e cmd = [MADDR 0x78, MDATA 0x00, MDATA cmd, MCTRLB (TWI_MCMD_STOP_gc e)]"

definition data_txn :: "env \<Rightarrow> u8 list \<Rightarrow> reg_write list" where
  "data_txn e bs = [MADDR 0x78, MDATA 0x40] @ map MDATA bs @ [MCTRLB (TWI_MCMD_STOP_gc e)]"

text \<open>The six bytes one character puts on the bus after the control byte: the five reads
  of the loop, then the separator.\<close>

definition cell :: "env \<Rightarrow> char \<Rightarrow> u8 list" where
  "cell e c = map (pgm_read_font e (char_value e c - 32)) [0..<5] @ [0x00]"

text \<open>A monitor of the bus over a log of writes: a start is legal on an idle bus only,
  a data byte and a stop on an open one only; \<open>None\<close> is a violation.\<close>

datatype bus = Idle | Open

fun monitor :: "env \<Rightarrow> bus \<Rightarrow> reg_write list \<Rightarrow> bus option" where
  "monitor e b [] = Some b"
| "monitor e Idle (MADDR a # ws) = monitor e Open ws"
| "monitor e Open (MADDR a # ws) = None"
| "monitor e Idle (MDATA d # ws) = None"
| "monitor e Open (MDATA d # ws) = monitor e Open ws"
| "monitor e Idle (MCTRLB v # ws) = None"
| "monitor e Open (MCTRLB v # ws) =
     (if v = TWI_MCMD_STOP_gc e then monitor e Idle ws else None)"

text \<open>The number of transactions a log opens.\<close>

fun starts :: "reg_write list \<Rightarrow> nat" where
  "starts [] = 0"
| "starts (MADDR a # ws) = Suc (starts ws)"
| "starts (w # ws) = starts ws"

text \<open>The opcodes the driver knows besides the two column-address families: the
  \<^verbatim>\<open>OLED_CMD_\<close> constants, the start-line family \<open>0x40 | line\<close> for the 64 lines and
  the page addresses \<open>0xB0 + row\<close> for the rows 0 to 7.\<close>

definition other_opcodes :: "u8 list" where
  "other_opcodes =
     [OLED_CMD_DISPLAY_OFF, OLED_CMD_DISPLAY_ON, OLED_CMD_SET_DISPLAY_CLOCK_DIV,
      OLED_CMD_SET_MULTIPLEX, OLED_CMD_SET_DISPLAY_OFFSET, OLED_CMD_CHARGE_PUMP,
      OLED_CMD_MEMORY_MODE, OLED_CMD_SEG_REMAP, OLED_CMD_COM_SCAN_DEC, OLED_CMD_SET_CONTRAST,
      OLED_CMD_PRECHARGE, OLED_CMD_SETVCOMDETECT, OLED_CMD_DISPLAY_ALL_ON_RESUME,
      OLED_CMD_NORMAL_DISPLAY]
     @ map (\<lambda>l. OLED_CMD_SET_START_LINE OR of_nat l) [0..<64]
     @ map (\<lambda>r. 0xB0 + of_nat r) [0..<8]"

text \<open>A sequence of commands, each in a transaction of its own.\<close>

fun oled_commands :: "env \<Rightarrow> u8 list \<Rightarrow> twi \<Rightarrow> twi option" where
  "oled_commands e [] s = Some s"
| "oled_commands e (cmd # cmds) s = do {
     s' \<leftarrow> oled_command e cmd s;
     oled_commands e cmds s'
   }"

text \<open>Concrete environments and the state at power-on. In \<open>ready_env\<close> the flag is set
  at every read and the memory around the table reads \<open>0xFF\<close>; in \<open>slow_env\<close> the flag
  is set at every third read; in \<open>stuck_env\<close> it never is.\<close>

definition ready_env :: env where
  "ready_env = \<lparr>TWI_WIF_bm = 0x40, TWI_MCMD_STOP_gc = 0x03, MSTATUS = (\<lambda>k. 0x40),
     adjacent = (\<lambda>off. 0xFF), char_signed = True\<rparr>"

definition slow_env :: env where
  "slow_env = \<lparr>TWI_WIF_bm = 0x40, TWI_MCMD_STOP_gc = 0x03,
     MSTATUS = (\<lambda>k. if k mod 3 = 2 then 0x60 else 0x20),
     adjacent = (\<lambda>off. 0xFF), char_signed = False\<rparr>"

definition stuck_env :: env where
  "stuck_env = \<lparr>TWI_WIF_bm = 0x40, TWI_MCMD_STOP_gc = 0x03, MSTATUS = (\<lambda>k. 0x00),
     adjacent = (\<lambda>off. 0xFF), char_signed = True\<rparr>"

definition power_on :: twi where
  "power_on = \<lparr>writes = [], polls = 0\<rparr>"

section \<open>Lemmas\<close>

lemmas OLED_CMD_defs =
  OLED_CMD_DISPLAY_OFF_def OLED_CMD_DISPLAY_ON_def OLED_CMD_SET_DISPLAY_CLOCK_DIV_def
  OLED_CMD_SET_MULTIPLEX_def OLED_CMD_SET_DISPLAY_OFFSET_def OLED_CMD_SET_START_LINE_def
  OLED_CMD_CHARGE_PUMP_def OLED_CMD_MEMORY_MODE_def OLED_CMD_SEG_REMAP_def
  OLED_CMD_COM_SCAN_DEC_def OLED_CMD_SET_CONTRAST_def OLED_CMD_PRECHARGE_def
  OLED_CMD_SETVCOMDETECT_def OLED_CMD_DISPLAY_ALL_ON_RESUME_def OLED_CMD_NORMAL_DISPLAY_def

declare glyph_loop.simps [simp del]

lemma wait_wif_now: "wif e k \<Longrightarrow> wait_wif e k = Some (Suc k)"
  by (subst wait_wif.simps) simp

lemma wait_wif_later: "\<not> wif e k \<Longrightarrow> wait_wif e k = wait_wif e (Suc k)"
  by (subst wait_wif.simps) simp

lemma wait_wif_Some_D:
  assumes "wait_wif e k = Some k'"
  shows "k < k' \<and> wif e (k' - 1) \<and> (\<forall>j. k \<le> j \<and> j < k' - 1 \<longrightarrow> \<not> wif e j)"
proof (rule wait_wif.raw_induct [OF _ assms])
  fix w :: "env \<Rightarrow> nat \<Rightarrow> nat option" and e k y
  assume IH: "\<And>e k y. w e k = Some y \<Longrightarrow>
      k < y \<and> wif e (y - 1) \<and> (\<forall>j. k \<le> j \<and> j < y - 1 \<longrightarrow> \<not> wif e j)"
    and step: "(if wif e k then Some (Suc k) else w e (Suc k)) = Some y"
  show "k < y \<and> wif e (y - 1) \<and> (\<forall>j. k \<le> j \<and> j < y - 1 \<longrightarrow> \<not> wif e j)"
  proof (cases "wif e k")
    case True
    with step show ?thesis by auto
  next
    case False
    with step have "w e (Suc k) = Some y" by simp
    from IH [OF this] have a: "Suc k < y" and b: "wif e (y - 1)"
      and c: "\<forall>j. Suc k \<le> j \<and> j < y - 1 \<longrightarrow> \<not> wif e j" by auto
    have "\<not> wif e j" if "k \<le> j" "j < y - 1" for j
    proof (cases "j = k")
      case True
      with False show ?thesis by simp
    next
      case neq: False
      with that have "Suc k \<le> j" by simp
      with c that show ?thesis by blast
    qed
    with a b show ?thesis by simp
  qed
qed

lemma wait_wif_eventually: "k \<le> j \<Longrightarrow> wif e j \<Longrightarrow> \<exists>k'. wait_wif e k = Some k'"
proof (induction "j - k" arbitrary: k)
  case 0
  then show ?case by (simp add: wait_wif_now)
next
  case (Suc n)
  show ?case
  proof (cases "wif e k")
    case True
    then show ?thesis by (simp add: wait_wif_now)
  next
    case False
    from Suc have "n = j - Suc k" "Suc k \<le> j" by auto
    from Suc(1) [OF this Suc(4)] False show ?thesis by (simp add: wait_wif_later)
  qed
qed

lemma wait_wif_None_iff: "wait_wif e k = None \<longleftrightarrow> (\<forall>j. k \<le> j \<longrightarrow> \<not> wif e j)"
proof
  assume n: "wait_wif e k = None"
  show "\<forall>j. k \<le> j \<longrightarrow> \<not> wif e j"
  proof (intro allI impI notI)
    fix j assume "k \<le> j" "wif e j"
    from wait_wif_eventually [OF this] n show False by simp
  qed
next
  assume stuck: "\<forall>j. k \<le> j \<longrightarrow> \<not> wif e j"
  show "wait_wif e k = None"
  proof (cases "wait_wif e k")
    case (Some k')
    from wait_wif_Some_D [OF this] have "k \<le> k' - 1" "wif e (k' - 1)" by auto
    with stuck show ?thesis by blast
  qed simp
qed

lemma wait_wif_responsive: "responsive e \<Longrightarrow> wait_wif e k \<noteq> None"
  by (auto simp: wait_wif_None_iff responsive_def)

lemma bind_returns: "m \<noteq> None \<Longrightarrow> (\<And>x. f x \<noteq> None) \<Longrightarrow> Option.bind m f \<noteq> None"
  by (cases m) auto

lemma i2c_start_writes:
  "i2c_start e a s = Some s' \<Longrightarrow> writes s' = writes s @ [MADDR (push_bit 1 a)]"
  by (auto simp: i2c_start_def)

lemma i2c_write_writes: "i2c_write e d s = Some s' \<Longrightarrow> writes s' = writes s @ [MDATA d]"
  by (auto simp: i2c_write_def)

lemma i2c_start_returns: "responsive e \<Longrightarrow> i2c_start e a s \<noteq> None"
  by (simp add: i2c_start_def wait_wif_responsive)

lemma i2c_write_returns: "responsive e \<Longrightarrow> i2c_write e d s \<noteq> None"
  by (simp add: i2c_write_def wait_wif_responsive)

lemma oled_command_writes:
  "oled_command e cmd s = Some s' \<Longrightarrow> writes s' = writes s @ command_txn e cmd"
  by (auto simp: oled_command_def i2c_stop_def command_txn_def OLED_ADDR_def bind_eq_Some_conv
      dest!: i2c_start_writes i2c_write_writes)

lemma oled_command_returns: "responsive e \<Longrightarrow> oled_command e cmd s \<noteq> None"
  unfolding oled_command_def
  by (intro bind_returns i2c_start_returns i2c_write_returns) simp_all

lemma oled_commands_writes:
  "oled_commands e cmds s = Some s' \<Longrightarrow>
     writes s' = writes s @ concat (map (command_txn e) cmds)"
  by (induction cmds arbitrary: s) (auto simp: bind_eq_Some_conv dest!: oled_command_writes)

lemma oled_commands_returns: "responsive e \<Longrightarrow> oled_commands e cmds s \<noteq> None"
proof (induction cmds arbitrary: s)
  case Nil
  show ?case by simp
next
  case (Cons cmd cmds)
  from Cons.prems have "oled_command e cmd s \<noteq> None" by (rule oled_command_returns)
  with Cons.IH [OF Cons.prems] show ?case by (simp add: bind_returns)
qed

lemma oled_commands_Nil: "oled_commands e [] = Some"
  by (rule ext) simp

lemma oled_commands_Cons:
  "oled_commands e (cmd # cmds) = (\<lambda>s. oled_command e cmd s \<bind> oled_commands e cmds)"
  by (rule ext) simp

lemma oled_init_commands:
  "oled_init e s = oled_commands e
     [0xAE, 0xD5, 0x80, 0xA8, 0x1F, 0xD3, 0x00, 0x40, 0x8D, 0x14, 0x20, 0x00,
      0xA1, 0xC8, 0x81, 0x8F, 0xD9, 0xF1, 0xDB, 0x40, 0xA4, 0xA6, 0xAF] s"
  by (simp add: oled_init_def OLED_CMD_defs oled_commands_Nil oled_commands_Cons)

lemma oled_set_cursor_commands:
  "oled_set_cursor e col row s =
     oled_commands e [0xB0 + row, col AND 0x0F, 0x10 + (drop_bit 4 col AND 0x0F)] s"
  by (simp add: oled_set_cursor_def oled_commands_Nil oled_commands_Cons)

lemma glyph_loop_writes:
  "glyph_loop e idx i s = Some s' \<Longrightarrow>
     writes s' = writes s @ map (\<lambda>j. MDATA (pgm_read_font e idx j)) [i..<5]"
proof (induction e idx i s rule: glyph_loop.induct)
  case (1 e idx i s)
  show ?case
  proof (cases "i < 5")
    case True
    with "1.prems" obtain s1 where w: "i2c_write e (pgm_read_font e idx i) s = Some s1"
      and r: "glyph_loop e idx (i + 1) s1 = Some s'"
      by (subst (asm) glyph_loop.simps) (auto simp: bind_eq_Some_conv)
    from "1.IH" [OF True w r] i2c_write_writes [OF w] True show ?thesis
      by (simp add: upt_conv_Cons)
  next
    case False
    with "1.prems" show ?thesis
      by (subst (asm) glyph_loop.simps) simp
  qed
qed

lemma glyph_loop_returns: "responsive e \<Longrightarrow> glyph_loop e idx i s \<noteq> None"
proof (induction e idx i s rule: glyph_loop.induct)
  case (1 e idx i s)
  show ?case
  proof (cases "i < 5")
    case True
    from "1.prems" obtain s1 where w: "i2c_write e (pgm_read_font e idx i) s = Some s1"
      using i2c_write_returns by blast
    from "1.IH" [OF True w "1.prems"] w True show ?thesis
      by (subst glyph_loop.simps) simp
  next
    case False
    then show ?thesis by (subst glyph_loop.simps) simp
  qed
qed

lemma oled_write_char_writes:
  "oled_write_char e c s = Some s' \<Longrightarrow> writes s' = writes s @ data_txn e (cell e c)"
  by (auto simp: oled_write_char_def i2c_stop_def data_txn_def cell_def OLED_ADDR_def
      bind_eq_Some_conv
      dest!: i2c_start_writes i2c_write_writes glyph_loop_writes)

lemma oled_write_char_returns: "responsive e \<Longrightarrow> oled_write_char e c s \<noteq> None"
  unfolding oled_write_char_def
  by (intro bind_returns i2c_start_returns i2c_write_returns glyph_loop_returns) simp_all

lemma responsive_ready: "responsive ready_env"
  by (auto simp: responsive_def wif_def ready_env_def)

lemma responsive_slow: "responsive slow_env"
proof -
  have "(3 * k + 2) mod 3 = 2" for k :: nat by presburger
  then have "k \<le> 3 * k + 2 \<and> wif slow_env (3 * k + 2)" for k
    by (simp add: wif_def slow_env_def del: add_2_eq_Suc')
  then show ?thesis unfolding responsive_def by blast
qed

lemma not_wif_stuck: "\<not> wif stuck_env k"
  by (simp add: wif_def stuck_env_def)

lemma char_value_ascii:
  assumes "of_char c < (128 :: nat)"
  shows "char_value e c = int (of_char c)"
proof -
  have w: "(of_char c :: u8) = word_of_nat (of_char c)"
    by (simp add: of_nat_of_char)
  have u: "uint (of_char c :: u8) = int (of_char c)"
    unfolding w using assms by (simp add: unsigned_of_nat take_bit_nat_eq_self)
  have "sint (of_char c :: u8) = int (of_char c)"
    unfolding w using assms by (simp add: signed_of_nat signed_take_bit_int_eq_self)
  with u show ?thesis by (simp add: char_value_def)
qed

lemma font_rows: "k < length font \<Longrightarrow> length (font ! k) = 5"
proof -
  have "\<forall>row \<in> set font. length row = 5" by (simp add: font_def)
  then show "k < length font \<Longrightarrow> length (font ! k) = 5" by simp
qed

lemma length_font: "length font = 12"
  by (simp add: font_def)

lemma length_concat_font: "length (concat font) = 60"
  by (simp add: font_def)

lemma concat_rows_nth:
  "\<forall>row \<in> set xss. length row = n \<Longrightarrow> k < length xss \<Longrightarrow> i < n \<Longrightarrow>
     concat xss ! (n * k + i) = xss ! k ! i"
proof (induction xss arbitrary: k)
  case Nil
  then show ?case by simp
next
  case (Cons row xss)
  show ?case
  proof (cases k)
    case 0
    with Cons.prems show ?thesis by (simp add: nth_append)
  next
    case (Suc k')
    with Cons.prems have "concat xss ! (n * k' + i) = xss ! k' ! i"
      by (intro Cons.IH) simp_all
    moreover from Cons.prems have "length row = n" by simp
    ultimately show ?thesis using Suc by (simp add: nth_append add.assoc)
  qed
qed

lemma pgm_read_font_in_table:
  assumes "k < length font" "i < 5"
  shows "pgm_read_font e (int k) i = font ! k ! i"
proof -
  have rows: "\<forall>row \<in> set font. length row = 5" by (simp add: font_def)
  from assms have "5 * k + i < 60" by (simp add: length_font)
  then have "pgm_read_font e (int k) i = concat font ! (5 * k + i)"
    by (simp add: pgm_read_font_def length_concat_font nat_add_distrib nat_mult_distrib)
  also from rows assms have "\<dots> = font ! k ! i" by (rule concat_rows_nth)
  finally show ?thesis .
qed

lemma glyph_in_table:
  assumes "k < length font"
  shows "map (pgm_read_font e (int k)) [0..<5] = font ! k"
proof -
  have "map (pgm_read_font e (int k)) [0..<5] = map (\<lambda>i. font ! k ! i) [0..<length (font ! k)]"
    using assms by (simp add: pgm_read_font_in_table font_rows)
  then show ?thesis by (simp add: map_nth)
qed

lemma cell_supported:
  assumes "32 \<le> (of_char c :: nat)" "of_char c < 32 + length font"
  shows "cell e c = font ! (of_char c - 32) @ [0x00]"
proof -
  from assms have "of_char c < (128 :: nat)" by (simp add: length_font)
  then have "char_value e c - 32 = int (of_char c - 32)"
    using assms by (simp add: char_value_ascii)
  moreover from assms have "of_char c - 32 < length font" by simp
  ultimately show ?thesis by (simp add: cell_def glyph_in_table)
qed

lemma oled_set_cursor_writes:
  "oled_set_cursor e col row s = Some s' \<Longrightarrow>
     writes s' = writes s @ command_txn e (0xB0 + row) @ command_txn e (col AND 0x0F)
       @ command_txn e (0x10 + (drop_bit 4 col AND 0x0F))"
proof -
  assume "oled_set_cursor e col row s = Some s'"
  then have "oled_commands e [0xB0 + row, col AND 0x0F, 0x10 + (drop_bit 4 col AND 0x0F)] s
      = Some s'"
    by (simp only: oled_set_cursor_commands)
  from oled_commands_writes [OF this] show ?thesis by simp
qed

lemma oled_set_cursor_returns: "responsive e \<Longrightarrow> oled_set_cursor e col row s \<noteq> None"
  by (simp only: oled_set_cursor_commands oled_commands_returns not_False_eq_True)

lemma oled_write_string_returns: "responsive e \<Longrightarrow> oled_write_string e str s \<noteq> None"
proof (induction str arbitrary: s)
  case Nil
  show ?case by simp
next
  case (Cons c str)
  have "oled_write_char e c s \<bind> oled_write_string e str \<noteq> None"
    by (intro bind_returns oled_write_char_returns Cons.IH Cons.prems)
  then show ?case by (cases "of_char c = (0 :: nat)") simp_all
qed

lemma writes_of:
  "f \<noteq> None \<Longrightarrow> (\<And>s'. f = Some s' \<Longrightarrow> writes s' = ws) \<Longrightarrow> map_option writes f = Some ws"
  by (cases f) auto

lemma oled_init_writes:
  "responsive e \<Longrightarrow> map_option writes (oled_init e s) =
     Some (writes s @ concat (map (command_txn e)
       [0xAE, 0xD5, 0x80, 0xA8, 0x1F, 0xD3, 0x00, 0x40, 0x8D, 0x14, 0x20, 0x00,
        0xA1, 0xC8, 0x81, 0x8F, 0xD9, 0xF1, 0xDB, 0x40, 0xA4, 0xA6, 0xAF]))"
  unfolding oled_init_commands
  by (rule writes_of) (simp_all only: oled_commands_returns oled_commands_writes not_False_eq_True)

lemma starts_append: "starts (ws @ ws') = starts ws + starts ws'"
  by (induction ws rule: starts.induct) simp_all

lemma starts_commands: "starts (concat (map (command_txn e) cmds)) = length cmds"
  by (induction cmds) (simp_all add: command_txn_def)

lemma oled_write_string_takeWhile:
  "oled_write_string e str s = Some s' \<Longrightarrow>
     writes s' = writes s @ concat (map (\<lambda>c. data_txn e (cell e c))
       (takeWhile (\<lambda>c. of_char c \<noteq> (0 :: nat)) str))"
  by (induction str arbitrary: s)
    (auto simp: bind_eq_Some_conv split: if_splits dest!: oled_write_char_writes)

lemma monitor_append:
  "monitor e b (ws @ ws') = monitor e b ws \<bind> (\<lambda>b'. monitor e b' ws')"
  by (induction e b ws rule: monitor.induct) simp_all

lemma monitor_command_txn: "monitor e Idle (command_txn e cmd) = Some Idle"
  by (simp add: command_txn_def)

lemma monitor_payload: "monitor e Open (map MDATA bs @ ws) = monitor e Open ws"
  by (induction bs) simp_all

lemma monitor_data_txn: "monitor e Idle (data_txn e bs) = Some Idle"
  by (simp add: data_txn_def monitor_payload)

lemma monitor_concat:
  "(\<And>x. monitor e Idle (f x) = Some Idle) \<Longrightarrow> monitor e Idle (concat (map f xs)) = Some Idle"
  by (induction xs) (simp_all add: monitor_append)

lemma closed_after:
  assumes "m \<noteq> None" and "\<And>s'. m = Some s' \<Longrightarrow> writes s' = writes s @ ws"
    and "monitor e Idle (writes s) = Some Idle" and "monitor e Idle ws = Some Idle"
  shows "m \<bind> (\<lambda>s'. monitor e Idle (writes s')) = Some Idle"
proof -
  from assms(1) obtain s' where m: "m = Some s'" by auto
  from assms(2) [OF m] assms(3,4) show ?thesis
    by (simp add: m monitor_append)
qed

lemma glyph_loop_supported:
  assumes "32 \<le> (of_char c :: nat)" "of_char c < 32 + length font"
  shows "map (pgm_read_font e (char_value e c - 32)) [0..<5] = font ! (of_char c - 32)"
  using cell_supported [OF assms, of e] by (simp add: cell_def)

lemma length_cell: "length (cell e c) = 6"
  by (simp add: cell_def)

lemma length_cells: "length (concat (map (cell e) str)) = 6 * length str"
  by (induction str) (simp_all add: length_cell)

lemma upt_5: "[0..<5] = [0, 1, 2, 3, 4]"
  by (simp add: upt_rec)

lemma digit_not_NUL: "c \<in> set ''0123456789'' \<Longrightarrow> of_char c \<noteq> (0 :: nat)"
  by auto

lemma other_opcodes_high: "\<forall>x \<in> set other_opcodes. 0x20 \<le> x"
  by code_simp

lemma low_nibble: "unat (col AND 0x0F :: u8) = unat col mod 16"
proof -
  have "col AND 0x0F = take_bit 4 col"
    by (simp add: take_bit_eq_mask mask_eq_exp_minus_1)
  then show ?thesis by (simp add: take_bit_eq_mod unat_mod)
qed

lemma high_nibble: "unat (0x10 + (drop_bit 4 col AND 0x0F) :: u8) = 16 + unat col div 16"
proof -
  have d: "unat (drop_bit 4 col) = unat col div 16"
    by (simp add: drop_bit_eq_div unat_div)
  have "unat col < 256" using unsigned_less [of col] by simp
  then have lt: "unat col div 16 < 16" by simp
  have "drop_bit 4 col AND 0x0F = take_bit 4 (drop_bit 4 col)"
    by (simp add: take_bit_eq_mask mask_eq_exp_minus_1)
  then have "unat (drop_bit 4 col AND 0x0F) = unat col div 16"
    using lt d by (simp add: take_bit_eq_mod unat_mod unat_div)
  with lt show ?thesis by (simp add: unat_word_ariths)
qed

section \<open>The claims\<close>

text \<open>
  Claim C7. For every opcode byte, \<open>oled_command\<close> performs exactly one bus transaction:
  the start addressed to the device (address byte \<open>0x78\<close>, the 7-bit address \<open>0x3C\<close>
  with the write bit), the command control byte \<open>0x00\<close>, the opcode, then the stop. On
  hardware that answers every wait the call returns, and these four register writes are
  all it adds to the log.
\<close>

theorem oled_command_one_transaction:
  assumes "responsive e"
  shows "map_option writes (oled_command e cmd s) =
    Some (writes s @ [MADDR 0x78, MDATA 0x00, MDATA cmd, MCTRLB (TWI_MCMD_STOP_gc e)])"
proof (rule writes_of)
  from assms show "oled_command e cmd s \<noteq> None" by (rule oled_command_returns)
next
  fix s' assume "oled_command e cmd s = Some s'"
  from oled_command_writes [OF this]
  show "writes s' = writes s @ [MADDR 0x78, MDATA 0x00, MDATA cmd, MCTRLB (TWI_MCMD_STOP_gc e)]"
    by (simp add: command_txn_def)
qed

theorem oled_command_one_transaction_witness:
  "responsive slow_env \<and>
   map_option writes (oled_command slow_env 0xAE power_on) =
     Some [MADDR 0x78, MDATA 0x00, MDATA 0xAE, MCTRLB 0x03]"
  using oled_command_one_transaction [where e = slow_env and cmd = "0xAE" and s = power_on]
    responsive_slow
  by (simp add: power_on_def slow_env_def)

text \<open>
  Claim C9. The waits of the address phase and of the byte transfer spin on the
  write-complete flag without a bound: \<open>i2c_start\<close> and \<open>i2c_write\<close> return exactly when
  some read of the status register, from the current one on, has the flag set, however
  late that read is; when no read ever has it set, they never return.
\<close>

theorem wait_loops_spin:
  "(i2c_start e a s \<noteq> None \<longleftrightarrow> (\<exists>j. polls s \<le> j \<and> wif e j)) \<and>
   (i2c_write e d s \<noteq> None \<longleftrightarrow> (\<exists>j. polls s \<le> j \<and> wif e j))"
proof -
  have "wait_wif e (polls s) \<noteq> None \<longleftrightarrow> (\<exists>j. polls s \<le> j \<and> wif e j)"
    by (simp only: wait_wif_None_iff) blast
  then show ?thesis by (simp add: i2c_start_def i2c_write_def)
qed

theorem wait_loops_spin_witness:
  "i2c_start slow_env 0x3C power_on \<noteq> None \<and> i2c_write slow_env 0x40 power_on \<noteq> None \<and>
   i2c_start stuck_env 0x3C power_on = None \<and> i2c_write stuck_env 0x40 power_on = None"
proof -
  have "\<exists>j. polls power_on \<le> j \<and> wif slow_env j"
    using responsive_slow by (simp add: responsive_def)
  moreover have "\<not> (\<exists>j. polls power_on \<le> j \<and> wif stuck_env j)"
    by (simp add: not_wif_stuck)
  ultimately show ?thesis
    using wait_loops_spin [of slow_env "0x3C" power_on "0x40"]
      wait_loops_spin [of stuck_env "0x3C" power_on "0x40"]
    by auto
qed

text \<open>
  Claim C3, as amended. The initialiser emits the bring-up sequence as 23 command bytes
  (not 22), each in a transaction of its own, in this order: display off \<open>0xAE\<close>; clock
  divider \<open>0xD5 0x80\<close>; multiplex ratio \<open>0xA8 0x1F\<close>; vertical offset \<open>0xD3 0x00\<close>;
  start line \<open>0x40\<close>; charge pump \<open>0x8D 0x14\<close>; addressing mode \<open>0x20 0x00\<close>; segment
  remap \<open>0xA1\<close>; COM scan direction \<open>0xC8\<close>; contrast \<open>0x81 0x8F\<close>; pre-charge
  \<open>0xD9 0xF1\<close>; VCOM deselect \<open>0xDB 0x40\<close>; all pixels follow RAM \<open>0xA4\<close>; normal
  polarity \<open>0xA6\<close>; display on \<open>0xAF\<close>.
\<close>

theorem oled_init_sequence:
  assumes "responsive e"
  shows "map_option writes (oled_init e s) =
     Some (writes s @ concat (map (command_txn e)
       [0xAE, 0xD5, 0x80, 0xA8, 0x1F, 0xD3, 0x00, 0x40, 0x8D, 0x14, 0x20, 0x00,
        0xA1, 0xC8, 0x81, 0x8F, 0xD9, 0xF1, 0xDB, 0x40, 0xA4, 0xA6, 0xAF])) \<and>
   map_option (starts \<circ> writes) (oled_init e s) = Some (starts (writes s) + 23)"
proof -
  note w = oled_init_writes [OF assms, of s]
  have "map_option (starts \<circ> writes) (oled_init e s) =
      map_option starts (map_option writes (oled_init e s))"
    by (simp add: option.map_comp)
  also have "\<dots> = Some (starts (writes s) + 23)"
    unfolding w by (simp only: option.map starts_append starts_commands) simp
  finally show ?thesis using w by simp
qed

theorem oled_init_sequence_witness:
  "responsive slow_env \<and>
   map_option (starts \<circ> writes) (oled_init slow_env power_on) = Some 23"
  using oled_init_sequence [where e = slow_env and s = power_on] responsive_slow
  by (simp add: power_on_def)

text \<open>
  Claim C3 as stated fails on the count: run from power-on on hardware that is always
  ready, the initialiser opens 23 transactions, one per command byte, not 22.
\<close>

theorem oled_init_not_22_commands:
  "map_option (starts \<circ> writes) (oled_init ready_env power_on) \<noteq> Some 22"
proof -
  note w = oled_init_writes [OF responsive_ready, of power_on]
  have "map_option (starts \<circ> writes) (oled_init ready_env power_on) =
      map_option starts (map_option writes (oled_init ready_env power_on))"
    by (simp add: option.map_comp)
  also have "\<dots> = Some 23"
    unfolding w by (simp only: option.map starts_append starts_commands) (simp add: power_on_def)
  finally have r: "map_option (starts \<circ> writes) (oled_init ready_env power_on) = Some 23" .
  show ?thesis unfolding r by simp
qed

text \<open>
  Claim C8. Every operation that opens a bus transaction closes it before it returns:
  started on an idle bus whose log obeys the protocol (no start on an open bus, no byte
  or stop on an idle one), each of \<open>oled_command\<close>, \<open>oled_write_char\<close>,
  \<open>oled_set_cursor\<close>, \<open>oled_write_string\<close> and \<open>oled_init\<close> returns, on hardware that
  answers every wait, with a log that still obeys the protocol and leaves the bus idle.
  So no transaction is left open and none is begun while another is open.
\<close>

theorem transactions_closed:
  assumes "responsive e" and "monitor e Idle (writes s) = Some Idle"
  shows "oled_command e cmd s \<bind> (\<lambda>s'. monitor e Idle (writes s')) = Some Idle \<and>
    oled_write_char e c s \<bind> (\<lambda>s'. monitor e Idle (writes s')) = Some Idle \<and>
    oled_set_cursor e col row s \<bind> (\<lambda>s'. monitor e Idle (writes s')) = Some Idle \<and>
    oled_write_string e str s \<bind> (\<lambda>s'. monitor e Idle (writes s')) = Some Idle \<and>
    oled_init e s \<bind> (\<lambda>s'. monitor e Idle (writes s')) = Some Idle"
proof (intro conjI)
  show "oled_command e cmd s \<bind> (\<lambda>s'. monitor e Idle (writes s')) = Some Idle"
    using oled_command_returns [OF assms(1)] oled_command_writes assms(2) monitor_command_txn
    by (rule closed_after)
  show "oled_write_char e c s \<bind> (\<lambda>s'. monitor e Idle (writes s')) = Some Idle"
    using oled_write_char_returns [OF assms(1)] oled_write_char_writes assms(2) monitor_data_txn
    by (rule closed_after)
  show "oled_set_cursor e col row s \<bind> (\<lambda>s'. monitor e Idle (writes s')) = Some Idle"
    using oled_set_cursor_returns [OF assms(1)] oled_set_cursor_writes assms(2)
  proof (rule closed_after)
    show "monitor e Idle (command_txn e (0xB0 + row) @ command_txn e (col AND 0x0F)
        @ command_txn e (0x10 + (drop_bit 4 col AND 0x0F))) = Some Idle"
      by (simp add: monitor_append monitor_command_txn)
  qed
  show "oled_write_string e str s \<bind> (\<lambda>s'. monitor e Idle (writes s')) = Some Idle"
    using oled_write_string_returns [OF assms(1)] oled_write_string_takeWhile assms(2)
  proof (rule closed_after)
    show "monitor e Idle (concat (map (\<lambda>c. data_txn e (cell e c))
        (takeWhile (\<lambda>c. of_char c \<noteq> (0 :: nat)) str))) = Some Idle"
      by (rule monitor_concat) (rule monitor_data_txn)
  qed
  have "oled_commands e cmds s \<bind> (\<lambda>s'. monitor e Idle (writes s')) = Some Idle" for cmds
    using oled_commands_returns [OF assms(1)] oled_commands_writes assms(2)
  proof (rule closed_after)
    show "monitor e Idle (concat (map (command_txn e) cmds)) = Some Idle"
      by (rule monitor_concat) (rule monitor_command_txn)
  qed
  then show "oled_init e s \<bind> (\<lambda>s'. monitor e Idle (writes s')) = Some Idle"
    by (simp only: oled_init_commands)
qed

theorem transactions_closed_witness:
  "responsive slow_env \<and> monitor slow_env Idle (writes power_on) = Some Idle \<and>
   oled_command slow_env 0xAF power_on \<bind> (\<lambda>s'. monitor slow_env Idle (writes s')) = Some Idle \<and>
   oled_write_char slow_env CHR ''!'' power_on \<bind> (\<lambda>s'. monitor slow_env Idle (writes s'))
     = Some Idle \<and>
   oled_set_cursor slow_env 0 1 power_on \<bind> (\<lambda>s'. monitor slow_env Idle (writes s'))
     = Some Idle \<and>
   oled_write_string slow_env ''Temp: 25C'' power_on \<bind> (\<lambda>s'. monitor slow_env Idle (writes s'))
     = Some Idle \<and>
   oled_init slow_env power_on \<bind> (\<lambda>s'. monitor slow_env Idle (writes s')) = Some Idle"
proof -
  have idle: "monitor slow_env Idle (writes power_on) = Some Idle"
    by (simp add: power_on_def)
  from transactions_closed [OF responsive_slow idle, of "0xAF" "CHR ''!''" 0 1 "''Temp: 25C''"]
    responsive_slow idle
  show ?thesis by simp
qed

text \<open>
  Claim C5. For every supported character code \<open>c\<close> in \<open>[32, 32 + N)\<close>, \<open>N = 12\<close> the
  number of rows of the table, the glyph lookup of \<open>oled_write_char\<close> (its loop) yields
  exactly five bytes, the row \<open>c - 32\<close> of the table; the bytes depend on \<open>c\<close> alone, not
  on the state of the bus, the compiler's \<^verbatim>\<open>char\<close> or the memory around the table, so
  every call with the same \<open>c\<close> yields the same bytes.
\<close>

theorem glyph_five_bytes:
  assumes "32 \<le> (of_char c :: nat)" "of_char c < 32 + length font" "responsive e"
  shows "map_option writes (glyph_loop e (char_value e c - 32) 0 s) =
      Some (writes s @ map MDATA (font ! (of_char c - 32))) \<and>
    length (font ! (of_char c - 32)) = 5 \<and>
    map (pgm_read_font e' (char_value e' c - 32)) [0..<5] =
      map (pgm_read_font e (char_value e c - 32)) [0..<5]"
proof (intro conjI)
  show "map_option writes (glyph_loop e (char_value e c - 32) 0 s) =
      Some (writes s @ map MDATA (font ! (of_char c - 32)))"
  proof (rule writes_of)
    from assms(3) show "glyph_loop e (char_value e c - 32) 0 s \<noteq> None"
      by (rule glyph_loop_returns)
  next
    fix s' assume "glyph_loop e (char_value e c - 32) 0 s = Some s'"
    from glyph_loop_writes [OF this]
    have "writes s' = writes s @ map MDATA (map (pgm_read_font e (char_value e c - 32)) [0..<5])"
      by (simp add: comp_def)
    then show "writes s' = writes s @ map MDATA (font ! (of_char c - 32))"
      by (simp only: glyph_loop_supported [OF assms(1,2)])
  qed
  from assms(1,2) show "length (font ! (of_char c - 32)) = 5"
    by (intro font_rows) simp
  show "map (pgm_read_font e' (char_value e' c - 32)) [0..<5] =
      map (pgm_read_font e (char_value e c - 32)) [0..<5]"
    by (simp only: glyph_loop_supported [OF assms(1,2)])
qed

theorem glyph_five_bytes_witness:
  "32 \<le> (of_char CHR ''!'' :: nat) \<and> of_char CHR ''!'' < 32 + length font \<and>
   responsive slow_env \<and>
   map_option writes (glyph_loop slow_env (char_value slow_env CHR ''!'' - 32) 0 power_on) =
     Some [MDATA 0x00, MDATA 0x00, MDATA 0x5F, MDATA 0x00, MDATA 0x00]"
proof -
  have a: "32 \<le> (of_char CHR ''!'' :: nat)" and b: "of_char CHR ''!'' < 32 + length font"
    by (simp_all add: length_font)
  from glyph_five_bytes [OF a b responsive_slow, of power_on] a b responsive_slow
  show ?thesis by (simp add: power_on_def font_def)
qed

text \<open>
  Claim C4. For every column, every row and every character (the digits and letters that
  the program writes included), \<open>oled_set_cursor\<close> followed at once by \<open>oled_write_char\<close>
  produces exactly three command transactions (page select \<open>0xB0 + row\<close>, low nibble of
  the column, \<open>0x10\<close> plus its high nibble) and then exactly one data transaction whose
  payload after the control byte \<open>0x40\<close> is six bytes: the five bytes of the glyph lookup
  and one zero byte. For a character whose code lies in the range of the table, the five
  bytes are its row of the table.
\<close>

theorem cursor_then_char:
  assumes "responsive e"
  shows "map_option writes (oled_set_cursor e col row s \<bind> oled_write_char e c) =
      Some (writes s @
        [MADDR 0x78, MDATA 0x00, MDATA (0xB0 + row), MCTRLB (TWI_MCMD_STOP_gc e),
         MADDR 0x78, MDATA 0x00, MDATA (col AND 0x0F), MCTRLB (TWI_MCMD_STOP_gc e),
         MADDR 0x78, MDATA 0x00, MDATA (0x10 + (drop_bit 4 col AND 0x0F)),
           MCTRLB (TWI_MCMD_STOP_gc e),
         MADDR 0x78, MDATA 0x40,
         MDATA (pgm_read_font e (char_value e c - 32) 0),
         MDATA (pgm_read_font e (char_value e c - 32) 1),
         MDATA (pgm_read_font e (char_value e c - 32) 2),
         MDATA (pgm_read_font e (char_value e c - 32) 3),
         MDATA (pgm_read_font e (char_value e c - 32) 4),
         MDATA 0x00, MCTRLB (TWI_MCMD_STOP_gc e)]) \<and>
    (32 \<le> (of_char c :: nat) \<and> of_char c < 32 + length font \<longrightarrow>
       [pgm_read_font e (char_value e c - 32) 0, pgm_read_font e (char_value e c - 32) 1,
        pgm_read_font e (char_value e c - 32) 2, pgm_read_font e (char_value e c - 32) 3,
        pgm_read_font e (char_value e c - 32) 4] = font ! (of_char c - 32))"
proof (intro conjI impI)
  show "map_option writes (oled_set_cursor e col row s \<bind> oled_write_char e c) =
      Some (writes s @
        [MADDR 0x78, MDATA 0x00, MDATA (0xB0 + row), MCTRLB (TWI_MCMD_STOP_gc e),
         MADDR 0x78, MDATA 0x00, MDATA (col AND 0x0F), MCTRLB (TWI_MCMD_STOP_gc e),
         MADDR 0x78, MDATA 0x00, MDATA (0x10 + (drop_bit 4 col AND 0x0F)),
           MCTRLB (TWI_MCMD_STOP_gc e),
         MADDR 0x78, MDATA 0x40,
         MDATA (pgm_read_font e (char_value e c - 32) 0),
         MDATA (pgm_read_font e (char_value e c - 32) 1),
         MDATA (pgm_read_font e (char_value e c - 32) 2),
         MDATA (pgm_read_font e (char_value e c - 32) 3),
         MDATA (pgm_read_font e (char_value e c - 32) 4),
         MDATA 0x00, MCTRLB (TWI_MCMD_STOP_gc e)])"
  proof (rule writes_of)
    show "oled_set_cursor e col row s \<bind> oled_write_char e c \<noteq> None"
      by (intro bind_returns oled_set_cursor_returns oled_write_char_returns assms)
  next
    fix s' assume "oled_set_cursor e col row s \<bind> oled_write_char e c = Some s'"
    then obtain s1 where 1: "oled_set_cursor e col row s = Some s1"
      and 2: "oled_write_char e c s1 = Some s'"
      by (auto simp: bind_eq_Some_conv)
    from oled_set_cursor_writes [OF 1] oled_write_char_writes [OF 2]
    show "writes s' = writes s @
        [MADDR 0x78, MDATA 0x00, MDATA (0xB0 + row), MCTRLB (TWI_MCMD_STOP_gc e),
         MADDR 0x78, MDATA 0x00, MDATA (col AND 0x0F), MCTRLB (TWI_MCMD_STOP_gc e),
         MADDR 0x78, MDATA 0x00, MDATA (0x10 + (drop_bit 4 col AND 0x0F)),
           MCTRLB (TWI_MCMD_STOP_gc e),
         MADDR 0x78, MDATA 0x40,
         MDATA (pgm_read_font e (char_value e c - 32) 0),
         MDATA (pgm_read_font e (char_value e c - 32) 1),
         MDATA (pgm_read_font e (char_value e c - 32) 2),
         MDATA (pgm_read_font e (char_value e c - 32) 3),
         MDATA (pgm_read_font e (char_value e c - 32) 4),
         MDATA 0x00, MCTRLB (TWI_MCMD_STOP_gc e)]"
      by (simp add: command_txn_def data_txn_def cell_def upt_5)
  qed
next
  assume "32 \<le> (of_char c :: nat) \<and> of_char c < 32 + length font"
  then have "map (pgm_read_font e (char_value e c - 32)) [0..<5] = font ! (of_char c - 32)"
    by (intro glyph_loop_supported) simp_all
  then show "[pgm_read_font e (char_value e c - 32) 0, pgm_read_font e (char_value e c - 32) 1,
        pgm_read_font e (char_value e c - 32) 2, pgm_read_font e (char_value e c - 32) 3,
        pgm_read_font e (char_value e c - 32) 4] = font ! (of_char c - 32)"
    by (simp add: upt_5)
qed

theorem cursor_then_char_witness:
  "responsive slow_env \<and>
   map_option writes (oled_set_cursor slow_env 0x25 0x01 power_on \<bind> oled_write_char slow_env CHR ''5'')
     = Some [MADDR 0x78, MDATA 0x00, MDATA 0xB1, MCTRLB 0x03,
         MADDR 0x78, MDATA 0x00, MDATA 0x05, MCTRLB 0x03,
         MADDR 0x78, MDATA 0x00, MDATA 0x12, MCTRLB 0x03,
         MADDR 0x78, MDATA 0x40, MDATA 0xFF, MDATA 0xFF, MDATA 0xFF, MDATA 0xFF, MDATA 0xFF,
         MDATA 0x00, MCTRLB 0x03] \<and>
   32 \<le> (of_char CHR ''!'' :: nat) \<and> of_char CHR ''!'' < 32 + length font \<and>
   map_option writes (oled_set_cursor slow_env 0x25 0x01 power_on \<bind> oled_write_char slow_env CHR ''!'')
     = Some [MADDR 0x78, MDATA 0x00, MDATA 0xB1, MCTRLB 0x03,
         MADDR 0x78, MDATA 0x00, MDATA 0x05, MCTRLB 0x03,
         MADDR 0x78, MDATA 0x00, MDATA 0x12, MCTRLB 0x03,
         MADDR 0x78, MDATA 0x40, MDATA 0x00, MDATA 0x00, MDATA 0x5F, MDATA 0x00, MDATA 0x00,
         MDATA 0x00, MCTRLB 0x03]"
proof -
  have a: "32 \<le> (of_char CHR ''!'' :: nat) \<and> of_char CHR ''!'' < 32 + length font"
    by (simp add: length_font)
  have five: "pgm_read_font slow_env (char_value slow_env CHR ''5'' - 32) i = 0xFF" for i
    by (simp add: pgm_read_font_def char_value_def length_concat_font slow_env_def)
  note digit = cursor_then_char [OF responsive_slow, of "0x25" "0x01" power_on "CHR ''5''"]
  note bang = cursor_then_char [OF responsive_slow, of "0x25" "0x01" power_on "CHR ''!''"]
  from bang a have row: "[pgm_read_font slow_env (char_value slow_env CHR ''!'' - 32) 0,
        pgm_read_font slow_env (char_value slow_env CHR ''!'' - 32) 1,
        pgm_read_font slow_env (char_value slow_env CHR ''!'' - 32) 2,
        pgm_read_font slow_env (char_value slow_env CHR ''!'' - 32) 3,
        pgm_read_font slow_env (char_value slow_env CHR ''!'' - 32) 4] = [0x00, 0x00, 0x5F, 0x00, 0x00]"
    by (simp add: font_def)
  have d: "map_option writes
      (oled_set_cursor slow_env 0x25 0x01 power_on \<bind> oled_write_char slow_env CHR ''5'')
     = Some [MADDR 0x78, MDATA 0x00, MDATA 0xB1, MCTRLB 0x03,
         MADDR 0x78, MDATA 0x00, MDATA 0x05, MCTRLB 0x03,
         MADDR 0x78, MDATA 0x00, MDATA 0x12, MCTRLB 0x03,
         MADDR 0x78, MDATA 0x40, MDATA 0xFF, MDATA 0xFF, MDATA 0xFF, MDATA 0xFF, MDATA 0xFF,
         MDATA 0x00, MCTRLB 0x03]"
    using digit by (simp add: five power_on_def) (simp add: slow_env_def)
  have b: "map_option writes
      (oled_set_cursor slow_env 0x25 0x01 power_on \<bind> oled_write_char slow_env CHR ''!'')
     = Some [MADDR 0x78, MDATA 0x00, MDATA 0xB1, MCTRLB 0x03,
         MADDR 0x78, MDATA 0x00, MDATA 0x05, MCTRLB 0x03,
         MADDR 0x78, MDATA 0x00, MDATA 0x12, MCTRLB 0x03,
         MADDR 0x78, MDATA 0x40, MDATA 0x00, MDATA 0x00, MDATA 0x5F, MDATA 0x00, MDATA 0x00,
         MDATA 0x00, MCTRLB 0x03]"
    using bang row by (simp add: power_on_def) (simp add: slow_env_def)
  from responsive_slow a d b show ?thesis by (simp only: simp_thms)
qed

text \<open>
  Claim C6. For every string of digit characters, \<open>oled_write_string\<close> sends one data
  transaction per character, in the order of the string and with no command (no cursor
  move, so no line wrap) in between; the payloads after the control bytes, taken
  together, are \<open>6 * length str\<close> bytes. (Which bytes a digit sends is the subject of
  claim C1.)
\<close>

theorem digits_stream:
  assumes "responsive e" "set str \<subseteq> set ''0123456789''"
  shows "map_option writes (oled_write_string e str s) =
      Some (writes s @ concat (map (\<lambda>c. data_txn e (cell e c)) str)) \<and>
    length (concat (map (cell e) str)) = 6 * length str"
proof (intro conjI)
  from assms(2) have "\<forall>c \<in> set str. of_char c \<noteq> (0 :: nat)"
    using digit_not_NUL by blast
  then have all: "takeWhile (\<lambda>c. of_char c \<noteq> (0 :: nat)) str = str"
    by (simp add: takeWhile_eq_all_conv)
  show "map_option writes (oled_write_string e str s) =
      Some (writes s @ concat (map (\<lambda>c. data_txn e (cell e c)) str))"
  proof (rule writes_of)
    from assms(1) show "oled_write_string e str s \<noteq> None"
      by (rule oled_write_string_returns)
  next
    fix s' assume "oled_write_string e str s = Some s'"
    from oled_write_string_takeWhile [OF this]
    show "writes s' = writes s @ concat (map (\<lambda>c. data_txn e (cell e c)) str)"
      by (simp only: all)
  qed
  show "length (concat (map (cell e) str)) = 6 * length str"
    by (rule length_cells)
qed

theorem digits_stream_witness:
  "responsive slow_env \<and> set ''25'' \<subseteq> set ''0123456789'' \<and>
   map_option writes (oled_write_string slow_env ''25'' power_on) =
     Some [MADDR 0x78, MDATA 0x40, MDATA 0xFF, MDATA 0xFF, MDATA 0xFF, MDATA 0xFF, MDATA 0xFF,
           MDATA 0x00, MCTRLB 0x03,
           MADDR 0x78, MDATA 0x40, MDATA 0xFF, MDATA 0xFF, MDATA 0xFF, MDATA 0xFF, MDATA 0xFF,
           MDATA 0x00, MCTRLB 0x03] \<and>
   length (concat (map (cell slow_env) ''25'')) = 6 * length ''25''"
proof -
  have d: "set ''25'' \<subseteq> set ''0123456789''" by simp
  have c: "cell slow_env CHR ''2'' = [0xFF, 0xFF, 0xFF, 0xFF, 0xFF, 0x00]"
    "cell slow_env CHR ''5'' = [0xFF, 0xFF, 0xFF, 0xFF, 0xFF, 0x00]"
    by (simp_all add: cell_def upt_5 pgm_read_font_def char_value_def length_concat_font
        slow_env_def)
  from digits_stream [OF responsive_slow d, of power_on] responsive_slow d
  show ?thesis by (simp add: power_on_def data_txn_def c) (simp add: slow_env_def)
qed

text \<open>
  Claim C10. For every column argument, values above 127 included, \<open>oled_set_cursor\<close>
  sends as its second and third command the low nibble of the column (\<open>col mod 16\<close>, in
  \<open>0x00\<close> to \<open>0x0F\<close>) and \<open>0x10\<close> plus its high nibble (\<open>16 + col div 16\<close>, in \<open>0x10\<close> to
  \<open>0x1F\<close>); neither byte is one of the other opcodes of the controller, which are all
  at least \<open>0x20\<close>.
\<close>

theorem column_nibbles:
  assumes "responsive e"
  shows "\<exists>lo hi. map_option writes (oled_set_cursor e col row s) =
      Some (writes s @ command_txn e (0xB0 + row) @ command_txn e lo @ command_txn e hi) \<and>
    unat lo = unat col mod 16 \<and> unat hi = 16 + unat col div 16 \<and>
    lo \<le> 0x0F \<and> 0x10 \<le> hi \<and> hi \<le> 0x1F \<and>
    lo \<notin> set other_opcodes \<and> hi \<notin> set other_opcodes"
proof (intro exI conjI)
  let ?lo = "col AND 0x0F" and ?hi = "0x10 + (drop_bit 4 col AND 0x0F)"
  show "map_option writes (oled_set_cursor e col row s) =
      Some (writes s @ command_txn e (0xB0 + row) @ command_txn e ?lo @ command_txn e ?hi)"
    using oled_set_cursor_returns [OF assms] oled_set_cursor_writes by (rule writes_of)
  show lo: "unat ?lo = unat col mod 16" by (rule low_nibble)
  show hi: "unat ?hi = 16 + unat col div 16" by (rule high_nibble)
  have "unat col < 256" using unsigned_less [of col] by simp
  then have d: "unat col div 16 < 16" by simp
  from lo show lo_le: "?lo \<le> 0x0F" by (simp add: word_le_nat_alt)
  from hi show "0x10 \<le> ?hi" by (simp add: word_le_nat_alt)
  from hi d show hi_le: "?hi \<le> 0x1F" by (simp add: word_le_nat_alt)
  from lo_le have "\<not> 0x20 \<le> ?lo" by (simp add: word_le_nat_alt)
  with other_opcodes_high show "?lo \<notin> set other_opcodes" by blast
  from hi_le have "\<not> 0x20 \<le> ?hi" by (simp add: word_le_nat_alt)
  with other_opcodes_high show "?hi \<notin> set other_opcodes" by blast
qed

theorem column_nibbles_witness:
  "responsive slow_env \<and>
   map_option writes (oled_set_cursor slow_env 0xFF 0x07 power_on) =
     Some [MADDR 0x78, MDATA 0x00, MDATA 0xB7, MCTRLB 0x03,
           MADDR 0x78, MDATA 0x00, MDATA 0x0F, MCTRLB 0x03,
           MADDR 0x78, MDATA 0x00, MDATA 0x1F, MCTRLB 0x03]"
proof -
  from column_nibbles [OF responsive_slow, of "0xFF" "0x07" power_on]
  obtain lo hi :: u8 where w: "map_option writes (oled_set_cursor slow_env 0xFF 0x07 power_on) =
      Some (writes power_on @ command_txn slow_env (0xB0 + 0x07) @ command_txn slow_env lo
        @ command_txn slow_env hi)"
    and "unat lo = unat (0xFF :: u8) mod 16" and "unat hi = 16 + unat (0xFF :: u8) div 16"
    by blast
  then have "unat lo = unat (0x0F :: u8)" "unat hi = unat (0x1F :: u8)" by simp_all
  then have "lo = 0x0F" "hi = 0x1F" by (simp_all only: word_unat_eq_iff)
  with w responsive_slow show ?thesis
    by (simp add: command_txn_def power_on_def slow_env_def)
qed

text \<open>
  Claim C1 against the code. The digit \<open>0\<close> has code 48, so \<open>oled_write_char\<close> reads
  row \<open>48 - 32 = 16\<close> of a table of 12 rows: the five bytes at offsets 80 to 84 from the
  table's address, past its 60 bytes. The row the source labels \<^verbatim>\<open>// 48 0\<close> is row 2,
  which the code reads for the character of code 34. With the memory around the table
  reading \<open>0xFF\<close>, writing the string \<open>0\<close> sends five bytes \<open>0xFF\<close> and the separator,
  not \<open>0x7C 0x12 0x11 0x12 0x7C 0x00\<close>.
\<close>

theorem zero_digit_reads_past_table:
  "cell e CHR ''0'' =
     [adjacent e 80, adjacent e 81, adjacent e 82, adjacent e 83, adjacent e 84, 0x00] \<and>
   map_option writes (oled_write_string ready_env ''0'' power_on) =
     Some [MADDR 0x78, MDATA 0x40, MDATA 0xFF, MDATA 0xFF, MDATA 0xFF, MDATA 0xFF, MDATA 0xFF,
           MDATA 0x00, MCTRLB 0x03] \<and>
   map_option writes (oled_write_string ready_env ''0'' power_on) \<noteq>
     Some [MADDR 0x78, MDATA 0x40, MDATA 0x7C, MDATA 0x12, MDATA 0x11, MDATA 0x12, MDATA 0x7C,
           MDATA 0x00, MCTRLB 0x03]"
proof -
  have c: "cell e CHR ''0'' =
     [adjacent e 80, adjacent e 81, adjacent e 82, adjacent e 83, adjacent e 84, 0x00]" for e
    by (simp add: cell_def upt_5 pgm_read_font_def char_value_def length_concat_font)
  have w: "map_option writes (oled_write_string ready_env ''0'' power_on) =
      Some (writes power_on @ concat (map (\<lambda>c. data_txn ready_env (cell ready_env c)) ''0''))"
  proof (rule writes_of)
    from responsive_ready show "oled_write_string ready_env ''0'' power_on \<noteq> None"
      by (rule oled_write_string_returns)
  next
    fix s' assume "oled_write_string ready_env ''0'' power_on = Some s'"
    from oled_write_string_takeWhile [OF this]
    show "writes s' = writes power_on @
        concat (map (\<lambda>c. data_txn ready_env (cell ready_env c)) ''0'')"
      by simp
  qed
  have x: "map_option writes (oled_write_string ready_env ''0'' power_on) =
     Some [MADDR 0x78, MDATA 0x40, MDATA 0xFF, MDATA 0xFF, MDATA 0xFF, MDATA 0xFF, MDATA 0xFF,
           MDATA 0x00, MCTRLB 0x03]"
    unfolding w by (simp add: c data_txn_def power_on_def) (simp add: ready_env_def)
  show ?thesis unfolding x by (simp add: c)
qed

text \<open>
  Claim C2 against the code. \<open>oled_write_char\<close> has no check of the character code and no
  failure result: for the letter \<open>T\<close> (code 84, the first character the program's
  \<^verbatim>\<open>main\<close> writes) the row index is 52 and byte \<open>i\<close> of the glyph is read at offset
  \<open>260 + i\<close> from the table's address, in the memory after the table; the call returns
  normally and sends those bytes to the display.
\<close>

theorem unsupported_char_reads_adjacent:
  "char_value e CHR ''T'' - 32 = 52 \<and>
   pgm_read_font e (char_value e CHR ''T'' - 32) i = adjacent e (260 + int i) \<and>
   map_option writes (oled_write_char ready_env CHR ''T'' power_on) =
     Some [MADDR 0x78, MDATA 0x40, MDATA 0xFF, MDATA 0xFF, MDATA 0xFF, MDATA 0xFF, MDATA 0xFF,
           MDATA 0x00, MCTRLB 0x03]"
proof -
  have v: "char_value e CHR ''T'' - 32 = 52" for e
    by (simp add: char_value_def)
  have r: "pgm_read_font e 52 i = adjacent e (260 + int i)" for e i
    by (simp add: pgm_read_font_def length_concat_font)
  have "map_option writes (oled_write_char ready_env CHR ''T'' power_on) =
      Some (writes power_on @ data_txn ready_env (cell ready_env CHR ''T''))"
    using oled_write_char_returns [OF responsive_ready] oled_write_char_writes
    by (rule writes_of)
  then have "map_option writes (oled_write_char ready_env CHR ''T'' power_on) =
     Some [MADDR 0x78, MDATA 0x40, MDATA 0xFF, MDATA 0xFF, MDATA 0xFF, MDATA 0xFF, MDATA 0xFF,
           MDATA 0x00, MCTRLB 0x03]"
    by (simp add: cell_def v r upt_5 data_txn_def power_on_def) (simp add: ready_env_def)
  with v r show ?thesis by simp
qed

end
